theory Spec2Isabelle
  imports Complex_Main "HOL-Library.FSet" "HOL-Library.Finite_Map"
    "HOL-Library.Char_ord" "HOL-Library.List_Lexorder"
begin

section \<open>Data model\<close>

text \<open>
  The miner of the LCOFI notebooks works on Python values:
  \<^item> an item is a string;
  \<^item> a transaction is a \<^verbatim>\<open>set\<close> of items, an itemset a \<^verbatim>\<open>frozenset\<close> of items: both are
    finite sets, compared by their elements;
  \<^item> a level of frequent itemsets is a \<^verbatim>\<open>dict\<close> from itemsets to support counts: a finite map;
  \<^item> the candidates handed to the support counter are a \<^verbatim>\<open>set\<close> of itemsets.

  Python iterates a set in an order that depends on the hashes of its elements. Where
  the source iterates a set to build a list, the embedding iterates it in sorted order;
  where the source loops over a set to update a dictionary entry per element, the
  updates touch distinct keys and are applied at once.

  The three notebooks each carry a copy of the miner. The copies of the connect-game and
  accident notebooks are the same; \<open>count_support\<close> and \<open>lcofi\<close> below embed them. The
  copies of the example notebook differ in how the threshold reaches the support counter;
  they are embedded as \<open>example_count_support\<close> and \<open>example_lcofi\<close>.

  A Python float is a double; it is embedded as the real number it denotes. The quotient
  \<^verbatim>\<open>count / len(transactions)\<close> divides two integers and yields the double nearest to the
  exact quotient (section \<open>True division\<close>). The comparison \<^verbatim>\<open>>=\<close> of two floats, or of a
  float and an integer, is the comparison of the numbers they denote. A threshold that
  is infinite or not a number is not a real: against the quotients, which lie between 0
  and 1, minus infinity compares as 0 does, and plus infinity and NaN as 2 does.
\<close>

type_synonym item = string
type_synonym itemset = "item fset"
type_synonym transaction = "item fset"
type_synonym support_dict = "(itemset, nat) fmap"

datatype py_error = ZeroDivisionError | OverflowError

section \<open>True division\<close>

text \<open>
  \<^verbatim>\<open>p / q\<close> on two Python integers raises \<^verbatim>\<open>ZeroDivisionError\<close> when \<open>q\<close> is 0 and otherwise
  returns the double nearest to the exact quotient, a tie going to the double whose
  mantissa is even; it raises \<^verbatim>\<open>OverflowError\<close> when that double would lie beyond the largest
  one. Only non-negative integers are divided here.

  A double is \<open>m * 2 ^ (e - 52)\<close> with a mantissa \<open>m < 2 ^ 53\<close> and an exponent \<open>e\<close> from -1022
  on; for a quotient of at least \<open>2 ^ (- 1022)\<close>, \<open>e\<close> is its binary exponent (\<open>2 ^ e\<close> is
  at most the quotient, \<open>2 ^ (e + 1)\<close> is above it), which puts the mantissa from \<open>2 ^ 52\<close> on.
\<close>

function exponent_up :: "int \<Rightarrow> int \<Rightarrow> int" where
  "exponent_up p q = (if 0 < q \<and> 2 * q \<le> p then exponent_up p (2 * q) + 1 else 0)"
  by pat_completeness auto
termination
  by (relation "measure (\<lambda>(p, q). nat (p - q))") auto

function exponent_down :: "int \<Rightarrow> int \<Rightarrow> int" where
  "exponent_down p q = (if 0 < p \<and> p < q then exponent_down (2 * p) q + 1 else 0)"
  by pat_completeness auto
termination
  by (relation "measure (\<lambda>(p, q). nat (q - p))") auto

declare exponent_up.simps [simp del] exponent_down.simps [simp del]

text \<open>The binary exponent of \<open>p / q\<close>, for positive \<open>p\<close> and \<open>q\<close>.\<close>

definition binary_exponent :: "int \<Rightarrow> int \<Rightarrow> int" where
  "binary_exponent p q = (if q \<le> p then exponent_up p q else - exponent_down p q)"

text \<open>The integer nearest to \<open>a / b\<close>, a tie going to the even one.\<close>

definition round_half_even :: "int \<Rightarrow> int \<Rightarrow> int" where
  "round_half_even a b =
     (let f = a div b; r = a mod b
      in if 2 * r < b then f else if b < 2 * r then f + 1
         else if even f then f else f + 1)"

text \<open>
  The double nearest to \<open>p / q\<close>: the mantissa is \<open>p / q\<close> scaled by \<open>2 ^ s\<close> and rounded, with
  \<open>s = 52 - e\<close>.
\<close>

definition double_quotient :: "nat \<Rightarrow> nat \<Rightarrow> real" where
  "double_quotient p q =
     (let e = max (binary_exponent (int p) (int q)) (- 1022); s = 52 - e
      in if 0 \<le> s
         then real_of_int (round_half_even (int p * 2 ^ nat s) (int q)) / 2 ^ nat s
         else real_of_int (round_half_even (int p) (int q * 2 ^ nat (- s))) * 2 ^ nat (- s))"

text \<open>
  The largest double is \<open>2 ^ 1024 - 2 ^ 971\<close>; the quotients from \<open>2 ^ 1024 - 2 ^ 970\<close> on round
  beyond it.
\<close>

definition py_truediv :: "nat \<Rightarrow> nat \<Rightarrow> py_error + real" where
  "py_truediv p q =
     (if q = 0 then Inl ZeroDivisionError
      else if int q * (2 ^ 1024 - 2 ^ 970) \<le> int p then Inl OverflowError
      else Inr (double_quotient p q))"

text \<open>
  The exception that leaves a comprehension whose entries evaluate to \<open>results\<close>. The
  quotients of one comprehension share their divisor, so they cannot raise both.
\<close>

definition raised :: "(py_error + real) fset \<Rightarrow> py_error option" where
  "raised results =
     (if Inl ZeroDivisionError |\<in>| results then Some ZeroDivisionError
      else if Inl OverflowError |\<in>| results then Some OverflowError
      else None)"

text \<open>
  A float literal denotes the double nearest to its decimal value; \<^verbatim>\<open>0.6\<close> is the
  threshold \<^verbatim>\<open>min_support\<close> of the example notebook, \<^verbatim>\<open>0.9\<close> and \<^verbatim>\<open>0.1\<close> serve below.
\<close>

definition float_0_6 :: real where
  "float_0_6 = double_quotient 6 10"

definition float_0_9 :: real where
  "float_0_9 = double_quotient 9 10"

definition float_0_1 :: real where
  "float_0_1 = double_quotient 1 10"

section \<open>Candidate generation\<close>

text \<open>
  \<^verbatim>\<open>itertools.combinations(iterable, r)\<close>: the \<open>r\<close>-length subsequences of the input, in
  the order of the positions of their elements (those that hold the first element first).
\<close>

fun combinations :: "'a list \<Rightarrow> nat \<Rightarrow> 'a list list" where
  "combinations xs 0 = [[]]"
| "combinations [] (Suc r) = []"
| "combinations (x # xs) (Suc r) =
     map ((#) x) (combinations xs r) @ combinations xs (Suc r)"

text \<open>
  \<^verbatim>\<open>
  def generate_candidates(frequent_itemsets, size):
      return set(
          frozenset(x) for x in itertools.combinations(set(itertools.chain(*frequent_itemsets)), size)
      )
  \<close>
  Unpacking the dictionary yields its keys; chaining them yields every item of every key;
  \<^verbatim>\<open>set\<close> collapses the duplicates.
\<close>

definition generate_candidates :: "support_dict \<Rightarrow> nat \<Rightarrow> itemset fset" where
  "generate_candidates frequent_itemsets sz =
     fset_of_list (map fset_of_list
       (combinations (sorted_list_of_fset (ffUnion (fmdom frequent_itemsets))) sz))"

section \<open>Support counting\<close>

text \<open>The dictionary comprehension \<^verbatim>\<open>{item: v for item in itemsets}\<close>.\<close>

definition dict_from_keys :: "'k fset \<Rightarrow> 'v \<Rightarrow> ('k, 'v) fmap" where
  "dict_from_keys ks v = Abs_fmap (\<lambda>k. if k |\<in>| ks then Some v else None)"

text \<open>The same over a set given by the list of its elements, for evaluation.\<close>

definition dict_of_set :: "'k set \<Rightarrow> 'v \<Rightarrow> ('k, 'v) fmap" where
  "dict_of_set ks v = Abs_fmap (\<lambda>k. if finite ks \<and> k \<in> ks then Some v else None)"

text \<open>
  \<^verbatim>\<open>
  def count_support(itemsets, transactions, min_support):
      support_counts = {item: 0 for item in itemsets}
      for transaction in transactions:
          for item in itemsets:
              if item.issubset(transaction):
                  support_counts[item] += 1
      return {
          item: count for item, count in support_counts.items()
          if count / len(transactions) >= min_support
      }
  \<close>
  \<open>count_transaction\<close> is the body of the outer loop (the whole inner loop for one
  transaction), \<open>support_counts\<close> the dictionary when both loops are done, and
  \<open>count_support\<close> adds the final comprehension. Its condition evaluates the quotient
  \<^verbatim>\<open>count / len(transactions)\<close> once for every entry of the dictionary (\<open>quotients\<close>); an
  exception of any of them leaves the function.
\<close>

definition count_transaction ::
  "itemset fset \<Rightarrow> transaction \<Rightarrow> support_dict \<Rightarrow> support_dict" where
  "count_transaction itemsets transaction counts =
     fmmap_keys (\<lambda>item count.
        if item |\<in>| itemsets \<and> item |\<subseteq>| transaction then count + 1 else count)
       counts"

definition support_counts :: "itemset fset \<Rightarrow> transaction list \<Rightarrow> support_dict" where
  "support_counts itemsets transactions =
     fold (count_transaction itemsets) transactions (dict_from_keys itemsets 0)"

definition count_support ::
  "itemset fset \<Rightarrow> transaction list \<Rightarrow> real \<Rightarrow> py_error + support_dict" where
  "count_support itemsets transactions min_support =
     (let counts = support_counts itemsets transactions;
          quotients = fmmap (\<lambda>count. py_truediv count (length transactions)) counts
      in case raised (fmran quotients) of
           Some e \<Rightarrow> Inl e
         | None \<Rightarrow>
             Inr (fmfilter (\<lambda>item. case fmlookup quotients item of
                               Some (Inr ratio) \<Rightarrow> ratio \<ge> min_support
                             | _ \<Rightarrow> False)
                    counts))"

text \<open>
  The copy of the example notebook has no threshold parameter:
  \<^verbatim>\<open>
  min_support = 0.6  # Minimum support threshold

  def count_support(itemsets, transactions):
      support_counts = {item: 0 for item in itemsets}
      for transaction in transactions:
          for item in itemsets:
              if item.issubset(transaction):
                  support_counts[item] += 1
      return {item: count for item, count in support_counts.items() if count / len(transactions) >= min_support}
  \<close>
  The name \<^verbatim>\<open>min_support\<close> in its body is the global of the module, whose value at the time
  of the call is the first argument of the embedding: the same function, run at the
  global.
\<close>

definition example_count_support ::
  "real \<Rightarrow> itemset fset \<Rightarrow> transaction list \<Rightarrow> py_error + support_dict" where
  "example_count_support global_min_support itemsets transactions =
     count_support itemsets transactions global_min_support"

text \<open>
  The specification's support count of an itemset: the number of transactions of which
  it is a subset.
\<close>

definition containment_count :: "itemset \<Rightarrow> transaction list \<Rightarrow> nat" where
  "containment_count S T = length (filter (\<lambda>t. S |\<subseteq>| t) T)"

section \<open>The incidence graph\<close>

text \<open>
  \<open>lcofi\<close> builds a \<^verbatim>\<open>networkx.Graph\<close>, of which it uses three operations. The graph
  keeps a dictionary from each node to its neighbours:
  \<^item> \<^verbatim>\<open>G.add_edge(u, v)\<close> adds \<open>u\<close> and \<open>v\<close> as nodes when they are new and records each
    as a neighbour of the other;
  \<^item> iterating \<^verbatim>\<open>G\<close> yields its nodes;
  \<^item> \<^verbatim>\<open>G.degree[n]\<close> is the number of neighbours of \<open>n\<close>, a self-loop counting twice.
\<close>

type_synonym graph = "(string, string fset) fmap"

definition neighbours :: "graph \<Rightarrow> string \<Rightarrow> string fset" where
  "neighbours G n = (case fmlookup G n of None \<Rightarrow> {||} | Some nbrs \<Rightarrow> nbrs)"

definition add_edge :: "graph \<Rightarrow> string \<Rightarrow> string \<Rightarrow> graph" where
  "add_edge G u v =
     (let G1 = (if u |\<in>| fmdom G then G else fmupd u {||} G);
          G2 = (if v |\<in>| fmdom G1 then G1 else fmupd v {||} G1);
          G3 = fmupd u (finsert v (neighbours G2 u)) G2
      in fmupd v (finsert u (neighbours G3 v)) G3)"

definition degree :: "graph \<Rightarrow> string \<Rightarrow> nat" where
  "degree G n = fcard (neighbours G n) + (if n |\<in>| neighbours G n then 1 else 0)"

text \<open>The decimal digits of a natural number, as \<^verbatim>\<open>str\<close> and an f-string print it.\<close>

definition digit_char :: "nat \<Rightarrow> char" where
  "digit_char n = ''0123456789'' ! n"

function str_nat :: "nat \<Rightarrow> string" where
  "str_nat n =
     (if n < 10 then [digit_char n] else str_nat (n div 10) @ [digit_char (n mod 10)])"
  by pat_completeness auto
termination
  by (relation "measure id") auto

declare str_nat.simps [simp del]

text \<open>The node \<^verbatim>\<open>f"Transaction_{i}"\<close> of the transaction at position \<open>i\<close>.\<close>

definition transaction_node :: "nat \<Rightarrow> string" where
  "transaction_node i = ''Transaction_'' @ str_nat i"

definition startswith :: "string \<Rightarrow> string \<Rightarrow> bool" where
  "startswith s p = (take (length p) s = p)"

text \<open>
  \<^verbatim>\<open>
      G = nx.Graph()
      for i, transaction in enumerate(transactions):
          for item in transaction:
              G.add_edge(f"Transaction_{i}", item)
  \<close>
\<close>

definition build_graph :: "transaction list \<Rightarrow> graph" where
  "build_graph transactions =
     fold (\<lambda>(i, transaction) G.
             fold (\<lambda>item G. add_edge G (transaction_node i) item)
               (sorted_list_of_fset transaction) G)
       (enumerate 0 transactions) fmempty"

text \<open>
  \<^verbatim>\<open>
      single_items = {frozenset([node]) for node in G
                      if G.degree[node] > 0 and not node.startswith("Transaction")}
  \<close>
\<close>

definition single_items :: "graph \<Rightarrow> itemset fset" where
  "single_items G =
     (\<lambda>node. {|node|}) |`|
       ffilter (\<lambda>node. degree G node > 0 \<and> \<not> startswith node ''Transaction'') (fmdom G)"

text \<open>A graph in which every node has a neighbour.\<close>

definition no_isolated :: "graph \<Rightarrow> bool" where
  "no_isolated G \<longleftrightarrow> (\<forall>n. n |\<in>| fmdom G \<longrightarrow> neighbours G n \<noteq> {||})"

section \<open>The level-wise miner\<close>

text \<open>
  \<^verbatim>\<open>
      frequent_itemsets = count_support(single_items, transactions, min_support)
      all_frequent_itemsets = [frequent_itemsets]
      k = 2
      while frequent_itemsets:
          candidates = generate_candidates(frequent_itemsets, k)
          frequent_itemsets = count_support(candidates, transactions, min_support)
          if frequent_itemsets:
              all_frequent_itemsets.append(frequent_itemsets)
          k += 1
      return all_frequent_itemsets
  \<close>
  \<open>lcofi_loop\<close> is the \<^verbatim>\<open>while\<close> loop on its state \<^verbatim>\<open>(frequent_itemsets, k, all_frequent_itemsets)\<close>;
  an exception of \<open>count_support\<close> leaves the function. Its termination is proved below,
  once the needed facts of the support counter are there.
\<close>

function lcofi_loop ::
  "transaction list \<Rightarrow> real \<Rightarrow> support_dict \<Rightarrow> nat \<Rightarrow> support_dict list
     \<Rightarrow> py_error + support_dict list" where
  "lcofi_loop transactions min_support frequent_itemsets k all_frequent_itemsets =
     (if frequent_itemsets \<noteq> fmempty then
        (case count_support (generate_candidates frequent_itemsets k) transactions min_support of
           Inl e \<Rightarrow> Inl e
         | Inr frequent_itemsets' \<Rightarrow>
             lcofi_loop transactions min_support frequent_itemsets' (k + 1)
               (if frequent_itemsets' \<noteq> fmempty
                then all_frequent_itemsets @ [frequent_itemsets']
                else all_frequent_itemsets))
      else Inr all_frequent_itemsets)"
  by pat_completeness auto

definition lcofi :: "transaction list \<Rightarrow> real \<Rightarrow> py_error + support_dict list" where
  "lcofi transactions min_support =
     (let G = build_graph transactions in
      case count_support (single_items G) transactions min_support of
        Inl e \<Rightarrow> Inl e
      | Inr frequent_itemsets \<Rightarrow>
          lcofi_loop transactions min_support frequent_itemsets 2 [frequent_itemsets])"

text \<open>
  The copy of the example notebook:
  \<^verbatim>\<open>
  def lcofi(transactions, min_support):
      G = nx.Graph()
      for i, transaction in enumerate(transactions):
          for item in transaction:
              G.add_edge(f"Transaction_{i}", item)
      single_items = {frozenset([node]) for node in G if G.degree[node] > 0 and not node.startswith("Transaction")}
      frequent_itemsets = count_support(single_items, transactions)
      all_frequent_itemsets = [frequent_itemsets]
      k = 2
      while frequent_itemsets:
          candidates = generate_candidates(frequent_itemsets, k)
          frequent_itemsets = count_support(candidates, transactions)
          if frequent_itemsets:
              all_frequent_itemsets.append(frequent_itemsets)
          k += 1
      return all_frequent_itemsets
  \<close>
  Both calls go to the two-parameter \<^verbatim>\<open>count_support\<close> of that notebook, which reads the
  global; the parameter \<^verbatim>\<open>min_support\<close> of \<^verbatim>\<open>lcofi\<close> is not read. The first argument of the
  embedding is the value of the global, the last one the parameter.
\<close>

function example_lcofi_loop ::
  "real \<Rightarrow> transaction list \<Rightarrow> support_dict \<Rightarrow> nat \<Rightarrow> support_dict list
     \<Rightarrow> py_error + support_dict list" where
  "example_lcofi_loop global_min_support transactions frequent_itemsets k all_frequent_itemsets =
     (if frequent_itemsets \<noteq> fmempty then
        (case example_count_support global_min_support
                (generate_candidates frequent_itemsets k) transactions of
           Inl e \<Rightarrow> Inl e
         | Inr frequent_itemsets' \<Rightarrow>
             example_lcofi_loop global_min_support transactions frequent_itemsets' (k + 1)
               (if frequent_itemsets' \<noteq> fmempty
                then all_frequent_itemsets @ [frequent_itemsets']
                else all_frequent_itemsets))
      else Inr all_frequent_itemsets)"
  by pat_completeness auto

definition example_lcofi ::
  "real \<Rightarrow> transaction list \<Rightarrow> real \<Rightarrow> py_error + support_dict list" where
  "example_lcofi global_min_support transactions min_support =
     (let G = build_graph transactions in
      case example_count_support global_min_support (single_items G) transactions of
        Inl e \<Rightarrow> Inl e
      | Inr frequent_itemsets \<Rightarrow>
          example_lcofi_loop global_min_support transactions frequent_itemsets 2
            [frequent_itemsets])"

text \<open>The sample dataset of the example notebook; its threshold is \<^verbatim>\<open>min_support = 0.6\<close>.\<close>

definition example_transactions :: "transaction list" where
  "example_transactions =
     [{|''A'', ''B'', ''C''|}, {|''A'', ''C''|}, {|''B'', ''C'', ''D''|},
      {|''A'', ''C'', ''D''|}, {|''B'', ''C''|}]"

text \<open>The two levels the example notebook prints for it.\<close>

definition example_level1 :: support_dict where
  "example_level1 = fmap_of_list [({|''C''|}, 5), ({|''A''|}, 3), ({|''B''|}, 3)]"

definition example_level2 :: support_dict where
  "example_level2 = fmap_of_list [({|''C'', ''A''|}, 3), ({|''C'', ''B''|}, 3)]"

section \<open>Rule derivation\<close>

text \<open>
  \<^verbatim>\<open>
  def generate_association_rules(frequent_itemsets, transactions, min_confidence):
      flat_itemsets = {}
      for level in frequent_itemsets:
          flat_itemsets.update(level)
      num_transactions = len(transactions)
      data = {
          'itemsets': list(flat_itemsets.keys()),
          'support': [support / num_transactions for support in flat_itemsets.values()]
      }
      frequent_itemsets_df = pd.DataFrame(data)
      rules = association_rules(frequent_itemsets_df, metric="confidence",
                                min_threshold=min_confidence, num_itemsets=num_transactions)
      return rules
  \<close>
  The data frame pairs each itemset with its relative support: a finite map from
  itemsets to reals, which holds the quotient \<open>supp(X) = count(X) / N\<close> of section 4.5 of
  the specification. \<^verbatim>\<open>association_rules\<close> is not code of the notebooks (it is imported
  from \<^verbatim>\<open>mlxtend\<close>); what it computes is taken from section 4.5 of the specification.
\<close>

type_synonym support_frame = "(itemset, real) fmap"

record rule =
  antecedents :: itemset
  consequents :: itemset
  support :: real
  confidence :: real
  lift :: real
  leverage :: real

text \<open>
  Modelled from the spec: the support lookup of \<^verbatim>\<open>association_rules\<close>, which is absent
  from the sources; \<open>supp(X)\<close> is read from the flattened mapping.
\<close>

definition supp :: "support_frame \<Rightarrow> itemset \<Rightarrow> real" where
  "supp df X = (case fmlookup df X of None \<Rightarrow> 0 | Some s \<Rightarrow> s)"



text \<open>
  Modelled from the spec: the metrics of \<^verbatim>\<open>association_rules\<close>, which is absent from the
  sources; step 4 gives support, confidence, lift and leverage of the rule \<open>A \<rightarrow> F \ A\<close>.
\<close>

definition score :: "support_frame \<Rightarrow> itemset \<Rightarrow> itemset \<Rightarrow> rule" where
  "score df F A =
     \<lparr>antecedents = A, consequents = F |-| A,
      support = supp df F,
      confidence = supp df F / supp df A,
      lift = (supp df F / supp df A) / supp df (F |-| A),
      leverage = supp df F - supp df A * supp df (F |-| A)\<rparr>"



definition support_frame :: "support_dict \<Rightarrow> nat \<Rightarrow> support_frame" where
  "support_frame flat_itemsets num_transactions =
     fmmap (\<lambda>support. real support / real num_transactions) flat_itemsets"



section \<open>Code equations and basic facts of the dictionary comprehension\<close>

lemma fmlookup_dict_from_keys [simp]:
  "fmlookup (dict_from_keys ks v) k = (if k |\<in>| ks then Some v else None)"
proof -
  have "finite (dom (\<lambda>k. if k |\<in>| ks then Some v else None))"
    by (simp add: dom_def)
  then show ?thesis
    by (simp add: dict_from_keys_def Abs_fmap_inverse)
qed

lemma fmlookup_dict_of_set [simp]:
  "fmlookup (dict_of_set ks v) k = (if finite ks \<and> k \<in> ks then Some v else None)"
proof -
  have "finite (dom (\<lambda>k. if finite ks \<and> k \<in> ks then Some v else None))"
    by (cases "finite ks") (simp_all add: dom_def)
  then show ?thesis
    by (simp add: dict_of_set_def Abs_fmap_inverse)
qed

lemma dict_from_keys_code [code]: "dict_from_keys ks v = dict_of_set (fset ks) v"
  by (rule fmap_ext) simp

lemma dict_of_set_code [code]:
  "dict_of_set (set ks) v = fmap_of_list (map (\<lambda>k. (k, v)) ks)"
  by (rule fmap_ext) (simp add: fmlookup_of_list map_of_map_restrict restrict_map_def)

lemma dict_from_keys_fempty [simp]: "dict_from_keys {||} v = fmempty"
  by (rule fmap_ext) simp

lemma dict_from_keys_finsert [simp]:
  "dict_from_keys (finsert k ks) v = fmupd k v (dict_from_keys ks v)"
  by (rule fmap_ext) simp

lemma fmdom_dict_from_keys [simp]: "fmdom (dict_from_keys ks v) = ks"
  by (rule fset_eqI) (simp add: fmlookup_dom_iff)

section \<open>What the two loops of the support counter compute\<close>

lemma fmlookup_fold_count_transaction:
  "fmlookup (fold (count_transaction C) T m) S =
     map_option (\<lambda>c. c + (if S |\<in>| C then containment_count S T else 0)) (fmlookup m S)"
proof (induction T arbitrary: m)
  case Nil
  then show ?case by (simp add: containment_count_def option.map_ident)
next
  case (Cons t T)
  have "fmlookup (fold (count_transaction C) (t # T) m) S =
      map_option (\<lambda>c. c + (if S |\<in>| C then containment_count S T else 0))
        (fmlookup (count_transaction C t m) S)"
    by (simp add: Cons.IH)
  also have "\<dots> = map_option (\<lambda>c. c + (if S |\<in>| C then containment_count S (t # T) else 0))
        (fmlookup m S)"
    by (cases "fmlookup m S") (simp_all add: count_transaction_def containment_count_def)
  finally show ?case .
qed

lemma fmlookup_support_counts:
  "fmlookup (support_counts C T) S = (if S |\<in>| C then Some (containment_count S T) else None)"
  by (simp add: support_counts_def fmlookup_fold_count_transaction)

lemma fmdom_support_counts [simp]: "fmdom (support_counts C T) = C"
  by (rule fset_eqI) (simp add: fmlookup_dom_iff fmlookup_support_counts)

lemma support_counts_empty_iff: "support_counts C T = fmempty \<longleftrightarrow> C = {||}"
  by (metis fmdom_support_counts fmdom_empty fmrestrict_fset_dom fmrestrict_fset_null)

text \<open>
  Some values of the true division: \<^verbatim>\<open>3 / 5\<close> and \<^verbatim>\<open>6 / 10\<close> are the double of \<^verbatim>\<open>0.6\<close>, which
  lies below 3/5; \<^verbatim>\<open>1 / 10\<close> lies above 1/10; ties go to the even neighbour.
\<close>

lemma double_quotient_values:
  "double_quotient 3 5 = 5404319552844595 / 2 ^ 53
   \<and> double_quotient 6 10 = double_quotient 3 5
   \<and> double_quotient 1 10 = 3602879701896397 / 2 ^ 55
   \<and> double_quotient 1 3 = 6004799503160661 / 2 ^ 54
   \<and> double_quotient 1 2 = 1 / 2
   \<and> double_quotient 5 5 = 1
   \<and> double_quotient 0 5 = 0
   \<and> double_quotient 3 5 < 3 / 5
   \<and> 1 / 10 < double_quotient 1 10"
  by code_simp

lemma round_half_even_values:
  "round_half_even 5 2 = 2 \<and> round_half_even 7 2 = 4 \<and> round_half_even 5 4 = 1
   \<and> round_half_even 7 4 = 2"
  by code_simp

lemma py_truediv_values:
  "py_truediv 3 0 = Inl ZeroDivisionError \<and> py_truediv 3 5 = Inr (double_quotient 3 5)"
  by code_simp

lemma containment_count_le: "containment_count S T \<le> length T"
  by (simp add: containment_count_def)

lemma py_truediv_Inr: "py_truediv p q = Inr r \<Longrightarrow> r = double_quotient p q"
  by (auto simp: py_truediv_def split: if_splits)

lemma py_truediv_part:
  assumes "0 < q" and "p \<le> q"
  shows "py_truediv p q = Inr (double_quotient p q)"
proof -
  define K :: int where "K = 2 ^ 1024 - 2 ^ 970"
  have "2 \<le> K" by (simp add: K_def)
  then have "int q * 2 \<le> int q * K" by (intro mult_left_mono) simp_all
  with assms have "\<not> int q * K \<le> int p" by linarith
  with assms(1) show ?thesis unfolding py_truediv_def K_def by (simp only: if_False) simp
qed

lemma raised_None_iff: "raised rs = None \<longleftrightarrow> (\<forall>x. x |\<in>| rs \<longrightarrow> \<not> isl x)"
proof
  assume none: "raised rs = None"
  show "\<forall>x. x |\<in>| rs \<longrightarrow> \<not> isl x"
  proof (intro allI impI)
    fix x assume x: "x |\<in>| rs"
    show "\<not> isl x"
    proof
      assume "isl x"
      then obtain e where "x = Inl e" by (cases x) simp_all
      with x none show False by (cases e) (simp_all add: raised_def split: if_splits)
    qed
  qed
next
  assume "\<forall>x. x |\<in>| rs \<longrightarrow> \<not> isl x"
  then show "raised rs = None" by (auto simp: raised_def)
qed

lemma count_support_Inr_lookup:
  assumes "count_support C T ms = Inr m"
  shows "fmlookup m S =
    (if S |\<in>| C \<and> ms \<le> double_quotient (containment_count S T) (length T)
     then Some (containment_count S T) else None)"
proof -
  let ?counts = "support_counts C T"
  let ?quotients = "fmmap (\<lambda>count. py_truediv count (length T)) ?counts"
  have none: "raised (fmran ?quotients) = None"
    and m: "m = fmfilter (\<lambda>item. case fmlookup ?quotients item of
                               Some (Inr ratio) \<Rightarrow> ratio \<ge> ms
                             | _ \<Rightarrow> False) ?counts"
    using assms by (cases "raised (fmran ?quotients)"; simp add: count_support_def Let_def)+
  show ?thesis
  proof (cases "S |\<in>| C")
    case False
    then show ?thesis by (simp add: m fmlookup_support_counts)
  next
    case True
    then have q: "fmlookup ?quotients S = Some (py_truediv (containment_count S T) (length T))"
      by (simp add: fmlookup_support_counts)
    then have "py_truediv (containment_count S T) (length T) |\<in>| fmran ?quotients"
      by (rule fmranI)
    with none have "\<not> isl (py_truediv (containment_count S T) (length T))"
      by (simp add: raised_None_iff)
    then obtain r where r: "py_truediv (containment_count S T) (length T) = Inr r"
      by (cases "py_truediv (containment_count S T) (length T)") simp_all
    then have "r = double_quotient (containment_count S T) (length T)"
      by (rule py_truediv_Inr)
    with True q r show ?thesis by (simp add: m fmlookup_support_counts)
  qed
qed

lemma count_support_Inr_dom:
  assumes "count_support C T ms = Inr m"
  shows "fmdom m |\<subseteq>| C"
  using count_support_Inr_lookup [OF assms]
  by (auto simp: fmlookup_dom_iff split: if_splits)

lemma count_support_nonempty_transactions:
  assumes "T \<noteq> []"
  shows "\<exists>m. count_support C T ms = Inr m"
proof -
  let ?quotients = "fmmap (\<lambda>count. py_truediv count (length T)) (support_counts C T)"
  have "\<not> isl x" if "x |\<in>| fmran ?quotients" for x
  proof -
    from that obtain S where "fmlookup ?quotients S = Some x" by (rule fmranE)
    then have "x = py_truediv (containment_count S T) (length T)"
      by (auto simp: fmlookup_support_counts split: if_splits)
    with assms show ?thesis by (simp add: py_truediv_part containment_count_le)
  qed
  then have "raised (fmran ?quotients) = None" by (simp add: raised_None_iff)
  then show ?thesis by (simp add: count_support_def Let_def)
qed

section \<open>What the combinations are\<close>

lemma set_combinations:
  "distinct xs \<Longrightarrow> set ` set (combinations xs r) = {S. S \<subseteq> set xs \<and> card S = r}"
proof (induction xs r rule: combinations.induct)
  case (1 xs)
  have "{S. S \<subseteq> set xs \<and> card S = 0} = {{}}"
    by (auto dest: finite_subset [OF _ finite_set])
  then show ?case by simp
next
  case (2 r)
  then show ?case by auto
next
  case (3 x xs r)
  from "3.prems" have nx: "x \<notin> set xs" and dxs: "distinct xs" by simp_all
  have with_x: "set ` set (map ((#) x) (combinations xs r))
      = insert x ` {S. S \<subseteq> set xs \<and> card S = r}"
    using "3.IH"(1) [OF dxs] by (simp add: image_image) (metis image_image)
  have split: "{S. S \<subseteq> set (x # xs) \<and> card S = Suc r}
      = insert x ` {S. S \<subseteq> set xs \<and> card S = r} \<union> {S. S \<subseteq> set xs \<and> card S = Suc r}"
    (is "?L = ?A \<union> ?B")
  proof (intro set_eqI iffI)
    fix S assume "S \<in> ?L"
    then have sub: "S \<subseteq> insert x (set xs)" and c: "card S = Suc r" by simp_all
    have fin: "finite S" using sub by (rule finite_subset) simp
    show "S \<in> ?A \<union> ?B"
    proof (cases "x \<in> S")
      case True
      then have "S = insert x (S - {x})" by auto
      moreover have "S - {x} \<subseteq> set xs" using sub by auto
      moreover have "card (S - {x}) = r" using c True fin by simp
      ultimately show ?thesis by blast
    next
      case False
      then have "S \<subseteq> set xs" using sub by auto
      then show ?thesis using c by simp
    qed
  next
    fix S assume "S \<in> ?A \<union> ?B"
    then show "S \<in> ?L"
    proof
      assume "S \<in> ?A"
      then obtain S' where S': "S = insert x S'" "S' \<subseteq> set xs" "card S' = r" by auto
      have "finite S'" using S'(2) by (rule finite_subset) simp
      moreover have "x \<notin> S'" using S'(2) nx by auto
      ultimately show ?thesis using S' by auto
    next
      assume "S \<in> ?B"
      then show ?thesis by auto
    qed
  qed
  show ?case
    using "3.IH"(2) [OF dxs] with_x split by (simp add: image_Un)
qed

lemma generate_candidates_iff:
  "S |\<in>| generate_candidates P k \<longleftrightarrow> S |\<subseteq>| ffUnion (fmdom P) \<and> fcard S = k"
proof -
  let ?U = "ffUnion (fmdom P)"
  let ?xs = "sorted_list_of_fset ?U"
  have d: "distinct ?xs" by (simp add: sorted_list_of_fset.rep_eq)
  have "S |\<in>| generate_candidates P k \<longleftrightarrow> fset S \<in> set ` set (combinations ?xs k)"
    unfolding generate_candidates_def
    by (auto simp: fset_of_list_elem fset_of_list.rep_eq image_iff fset_inject [symmetric]
        simp del: fset_inject)
  also have "\<dots> \<longleftrightarrow> fset S \<subseteq> fset ?U \<and> card (fset S) = k"
    unfolding set_combinations [OF d] by simp
  also have "\<dots> \<longleftrightarrow> S |\<subseteq>| ?U \<and> fcard S = k"
    by (simp add: less_eq_fset.rep_eq fcard.rep_eq)
  finally show ?thesis .
qed

section \<open>Termination of the level-wise loop\<close>

text \<open>
  Every key of a level is one of its candidates, so the items of a level are items of
  the level before; a non-empty level for size \<open>k\<close> holds an itemset of \<open>k\<close> of them.
  Hence \<open>k\<close> cannot pass the number of items of the first level while levels stay
  non-empty.
\<close>

lemma universe_bound:
  assumes "S |\<in>| fmdom m"
  shows "fcard S \<le> fcard (ffUnion (fmdom m))"
proof -
  have "S |\<subseteq>| ffUnion (fmdom m)"
    using assms by (auto simp: ffUnion.rep_eq less_eq_fset.rep_eq)
  then show ?thesis by (rule fcard_mono)
qed

lemma level_keys_candidates:
  assumes "count_support (generate_candidates F k) T ms = Inr F'" and "S |\<in>| fmdom F'"
  shows "S |\<subseteq>| ffUnion (fmdom F) \<and> fcard S = k"
proof -
  from assms(2) count_support_Inr_dom [OF assms(1)] have "S |\<in>| generate_candidates F k"
    by (rule fsubsetD [rotated])
  then show ?thesis by (simp add: generate_candidates_iff)
qed

lemma universe_shrinks:
  assumes "count_support (generate_candidates F k) T ms = Inr F'"
  shows "ffUnion (fmdom F') |\<subseteq>| ffUnion (fmdom F)"
  using level_keys_candidates [OF assms] by (auto simp: ffUnion_fsubset_iff)

lemma fmap_nonempty_key:
  assumes "m \<noteq> fmempty"
  obtains S where "S |\<in>| fmdom m"
  using assms by (metis fmrestrict_fset_dom fmrestrict_fset_null fset_eqI fempty_iff)

termination lcofi_loop
proof (relation "measure (\<lambda>(T, ms, F, k, acc).
          if F = fmempty then 0 else Suc (Suc (fcard (ffUnion (fmdom F))) - k))")
  show "wf (measure (\<lambda>(T, ms, F, k, acc).
          if F = fmempty then 0 else Suc (Suc (fcard (ffUnion (fmdom F))) - k)))"
    by simp
next
  fix T :: "transaction list" and ms :: real and F :: support_dict and k :: nat
    and acc :: "support_dict list" and F' :: support_dict
  assume ne: "F \<noteq> fmempty"
    and cs: "count_support (generate_candidates F k) T ms = Inr F'"
  show "((T, ms, F', k + 1, if F' \<noteq> fmempty then acc @ [F'] else acc), (T, ms, F, k, acc))
      \<in> measure (\<lambda>(T, ms, F, k, acc).
          if F = fmempty then 0 else Suc (Suc (fcard (ffUnion (fmdom F))) - k))"
  proof (cases "F' = fmempty")
    case True
    then show ?thesis using ne by simp
  next
    case False
    then obtain S where S: "S |\<in>| fmdom F'" by (rule fmap_nonempty_key)
    have "k \<le> fcard (ffUnion (fmdom F'))"
      using universe_bound [OF S] level_keys_candidates [OF cs S] by simp
    moreover have "fcard (ffUnion (fmdom F')) \<le> fcard (ffUnion (fmdom F))"
      using universe_shrinks [OF cs] by (rule fcard_mono)
    ultimately show ?thesis using ne False by simp
  qed
qed

declare lcofi_loop.simps [simp del]

termination example_lcofi_loop
proof (relation "measure (\<lambda>(g, T, F, k, acc).
          if F = fmempty then 0 else Suc (Suc (fcard (ffUnion (fmdom F))) - k))")
  show "wf (measure (\<lambda>(g, T, F, k, acc).
          if F = fmempty then 0 else Suc (Suc (fcard (ffUnion (fmdom F))) - k)))"
    by simp
next
  fix g :: real and T :: "transaction list" and F :: support_dict and k :: nat
    and acc :: "support_dict list" and F' :: support_dict
  assume ne: "F \<noteq> fmempty"
    and "example_count_support g (generate_candidates F k) T = Inr F'"
  then have cs: "count_support (generate_candidates F k) T g = Inr F'"
    by (simp add: example_count_support_def)
  show "((g, T, F', k + 1, if F' \<noteq> fmempty then acc @ [F'] else acc), (g, T, F, k, acc))
      \<in> measure (\<lambda>(g, T, F, k, acc).
          if F = fmempty then 0 else Suc (Suc (fcard (ffUnion (fmdom F))) - k))"
  proof (cases "F' = fmempty")
    case True
    then show ?thesis using ne by simp
  next
    case False
    then obtain S where S: "S |\<in>| fmdom F'" by (rule fmap_nonempty_key)
    have "k \<le> fcard (ffUnion (fmdom F'))"
      using universe_bound [OF S] level_keys_candidates [OF cs S] by simp
    moreover have "fcard (ffUnion (fmdom F')) \<le> fcard (ffUnion (fmdom F))"
      using universe_shrinks [OF cs] by (rule fcard_mono)
    ultimately show ?thesis using ne False by simp
  qed
qed

declare example_lcofi_loop.simps [simp del]

section \<open>Claims on candidate generation and support counting\<close>

text \<open>
  Claim C1. For every mapping \<open>P\<close> of previous-level frequent itemsets and every
  \<open>k \<ge> 2\<close>, \<open>generate_candidates P k\<close> is exactly the set of all \<open>k\<close>-element subsets of
  the universe formed by the items of the itemsets of \<open>P\<close>, with no pruning by the
  frequency of subsets. In particular the result is empty when \<open>P\<close> is empty, and empty
  (without error) when the universe has fewer than \<open>k\<close> items.
\<close>

theorem generate_candidates_all_subsets:
  assumes "2 \<le> k"
  shows "fset (generate_candidates P k) = {S. S |\<subseteq>| ffUnion (fmdom P) \<and> fcard S = k}
       \<and> generate_candidates fmempty k = {||}
       \<and> (fcard (ffUnion (fmdom P)) < k \<longrightarrow> generate_candidates P k = {||})"
proof (intro conjI impI)
  show "fset (generate_candidates P k) = {S. S |\<subseteq>| ffUnion (fmdom P) \<and> fcard S = k}"
    by (auto simp: generate_candidates_iff)
next
  have "S |\<notin>| generate_candidates fmempty k" for S
    using assms by (auto simp: generate_candidates_iff fcard_fempty)
  then show "generate_candidates fmempty k = {||}" by auto
next
  assume small: "fcard (ffUnion (fmdom P)) < k"
  have "S |\<notin>| generate_candidates P k" for S
  proof
    assume "S |\<in>| generate_candidates P k"
    then have "S |\<subseteq>| ffUnion (fmdom P)" and "fcard S = k"
      by (simp_all add: generate_candidates_iff)
    then show False using small fcard_mono [of S "ffUnion (fmdom P)"] by simp
  qed
  then show "generate_candidates P k = {||}" by auto
qed

text \<open>
  Witness for C1: a previous level whose universe is the single item \<open>A\<close>, at \<open>k = 2\<close>.
\<close>

theorem generate_candidates_all_subsets_witness:
  "(2::nat) \<le> 2
   \<and> fcard (ffUnion (fmdom (fmupd {|''A''|} (3::nat) fmempty))) < 2
   \<and> generate_candidates (fmupd {|''A''|} 3 fmempty) 2 = {||}"
  using generate_candidates_all_subsets [of 2 "fmupd {|''A''|} 3 fmempty"]
  by (simp add: fcard_finsert_if)



text \<open>
  The quotient is the rounded one. With one transaction in ten holding \<open>A\<close> and the
  threshold \<^verbatim>\<open>0.1\<close>, the code keeps \<open>A\<close>: \<^verbatim>\<open>1 / 10\<close> is the double that \<^verbatim>\<open>0.1\<close> denotes, and
  the exact quotient lies below it.
\<close>

lemma count_support_rounded_quotient:
  "count_support {|{|''A''|}|} ({|''A''|} # replicate 9 {|''B''|}) float_0_1
     = Inr (fmap_of_list [({|''A''|}, 1)])
   \<and> double_quotient 1 10 = float_0_1
   \<and> (1 :: real) / 10 < float_0_1"
  by code_simp

text \<open>
  Claim C10. Support counting is antitone in the candidate: for every transaction list
  and every two candidates \<open>S \<subseteq> S'\<close> handed to the support counter, the count
  accumulated for \<open>S'\<close> is at most the count accumulated for \<open>S\<close>.
\<close>

theorem support_counts_antitone:
  assumes "S |\<in>| C" and "S' |\<in>| C" and "S |\<subseteq>| S'"
  shows "\<exists>c c'. fmlookup (support_counts C T) S = Some c
               \<and> fmlookup (support_counts C T) S' = Some c' \<and> c' \<le> c"
proof -
  have "filter (\<lambda>t. S' |\<subseteq>| t) T = filter (\<lambda>t. S' |\<subseteq>| t) (filter (\<lambda>t. S |\<subseteq>| t) T)"
    using assms(3) by (auto intro!: filter_cong)
  then have "containment_count S' T \<le> containment_count S T"
    unfolding containment_count_def by (metis length_filter_le)
  with assms(1,2) show ?thesis by (simp add: fmlookup_support_counts)
qed

text \<open>Witness for C10: the candidates \<open>{C}\<close> and \<open>{A, C}\<close> over two transactions.\<close>

theorem support_counts_antitone_witness:
  "{|''C''|} |\<in>| {|{|''C''|}, {|''A'', ''C''|}|}
   \<and> {|''A'', ''C''|} |\<in>| {|{|''C''|}, {|''A'', ''C''|}|}
   \<and> {|''C''|} |\<subseteq>| {|''A'', ''C''|}
   \<and> (\<exists>c c'. fmlookup (support_counts {|{|''C''|}, {|''A'', ''C''|}|}
                  [{|''A'', ''C''|}, {|''B'', ''C''|}]) {|''C''|} = Some c
            \<and> fmlookup (support_counts {|{|''C''|}, {|''A'', ''C''|}|}
                  [{|''A'', ''C''|}, {|''B'', ''C''|}]) {|''A'', ''C''|} = Some c'
            \<and> c' \<le> c)"
  using support_counts_antitone [of "{|''C''|}" "{|{|''C''|}, {|''A'', ''C''|}|}" "{|''A'', ''C''|}"
      "[{|''A'', ''C''|}, {|''B'', ''C''|}]"]
  by simp

section \<open>The loop of the miner: invariants and normal return\<close>

lemma lcofi_loop_rule:
  assumes ret: "lcofi_loop T ms F k acc = Inr levels"
    and init: "I F k acc"
    and step: "\<And>F k acc F'. I F k acc \<Longrightarrow> F \<noteq> fmempty \<Longrightarrow>
                 count_support (generate_candidates F k) T ms = Inr F' \<Longrightarrow>
                 I F' (k + 1) (if F' \<noteq> fmempty then acc @ [F'] else acc)"
  shows "\<exists>k'. I fmempty k' levels"
  using ret init step
proof (induction T ms F k acc rule: lcofi_loop.induct)
  case (1 T ms F k acc)
  show ?case
  proof (cases "F = fmempty")
    case True
    with "1.prems"(1,2) show ?thesis by (auto simp: lcofi_loop.simps)
  next
    case False
    from "1.prems"(1) False obtain F' where
      cs: "count_support (generate_candidates F k) T ms = Inr F'"
      and rec: "lcofi_loop T ms F' (k + 1) (if F' \<noteq> fmempty then acc @ [F'] else acc) = Inr levels"
      by (subst (asm) lcofi_loop.simps) (auto split: sum.splits)
    have I': "I F' (k + 1) (if F' \<noteq> fmempty then acc @ [F'] else acc)"
      using "1.prems"(2) False cs by (rule "1.prems"(3))
    show ?thesis
      by (rule "1.IH" [OF False cs rec I']) (rule "1.prems"(3); assumption)
  qed
qed

lemma lcofi_loop_returns:
  assumes "T \<noteq> []"
  shows "\<exists>levels. lcofi_loop T ms F k acc = Inr levels"
  using assms
proof (induction T ms F k acc rule: lcofi_loop.induct)
  case (1 T ms F k acc)
  show ?case
  proof (cases "F = fmempty")
    case True
    then show ?thesis by (simp add: lcofi_loop.simps)
  next
    case False
    from "1.prems" obtain F' where
      cs: "count_support (generate_candidates F k) T ms = Inr F'"
      using count_support_nonempty_transactions by blast
    from "1.IH" [OF False cs "1.prems"] obtain levels where
      "lcofi_loop T ms F' (k + 1) (if F' \<noteq> fmempty then acc @ [F'] else acc) = Inr levels"
      by blast
    then have "lcofi_loop T ms F k acc = Inr levels"
      using False cs by (subst lcofi_loop.simps) simp
    then show ?thesis by blast
  qed
qed

lemma build_graph_Nil [simp]: "build_graph [] = fmempty"
  by (simp add: build_graph_def)

lemma single_items_fmempty [simp]: "single_items fmempty = {||}"
  by (auto simp: single_items_def)

lemma count_support_no_candidates [simp]: "count_support {||} T ms = Inr fmempty"
proof -
  have "support_counts {||} T = fmempty" by (simp add: support_counts_empty_iff)
  then show ?thesis by (simp add: count_support_def Let_def raised_def)
qed

lemma lcofi_no_transactions: "lcofi [] ms = Inr [fmempty]"
  by (simp add: lcofi_def lcofi_loop.simps)

lemma lcofi_returns: "\<exists>levels. lcofi T ms = Inr levels"
proof (cases "T = []")
  case True
  then show ?thesis by (simp add: lcofi_no_transactions)
next
  case False
  then obtain F where "count_support (single_items (build_graph T)) T ms = Inr F"
    using count_support_nonempty_transactions by blast
  then show ?thesis using lcofi_loop_returns [OF False] by (simp add: lcofi_def Let_def)
qed

lemma lcofi_first_level:
  assumes "lcofi T ms = Inr levels"
  obtains F where "count_support (single_items (build_graph T)) T ms = Inr F"
    and "lcofi_loop T ms F 2 [F] = Inr levels"
  using assms by (auto simp: lcofi_def Let_def split: sum.splits)

text \<open>
  The copy of the example notebook computes what the other copy computes at the global,
  whatever its own last argument.
\<close>

lemma example_lcofi_loop_eq:
  "example_lcofi_loop g T F k acc = lcofi_loop T g F k acc"
proof (induction T g F k acc rule: lcofi_loop.induct)
  case (1 T g F k acc)
  show ?case
  proof (cases "F = fmempty")
    case True
    then show ?thesis by (simp add: lcofi_loop.simps example_lcofi_loop.simps)
  next
    case False
    show ?thesis
    proof (cases "count_support (generate_candidates F k) T g")
      case (Inl e)
      with False show ?thesis
        by (simp add: lcofi_loop.simps [of T g F] example_lcofi_loop.simps [of g T F]
            example_count_support_def)
    next
      case (Inr F')
      with False "1.IH" [OF False Inr] show ?thesis
        by (simp add: lcofi_loop.simps [of T g F] example_lcofi_loop.simps [of g T F]
            example_count_support_def)
    qed
  qed
qed

lemma example_lcofi_eq: "example_lcofi g T p = lcofi T g"
  by (simp add: example_lcofi_def lcofi_def example_count_support_def example_lcofi_loop_eq
      split: sum.splits)

lemma single_items_card:
  "S |\<in>| single_items G \<Longrightarrow> fcard S = 1"
  by (auto simp: single_items_def fcard_finsert_if fcard_fempty)

lemma count_support_Inr_frequent:
  assumes "count_support C T ms = Inr m" and "fmlookup m S = Some c"
  shows "S |\<in>| C \<and> c = containment_count S T \<and> ms \<le> double_quotient c (length T)"
  using count_support_Inr_lookup [OF assms(1), of S] assms(2)
  by (auto split: if_splits)

section \<open>Claims on the level-wise miner\<close>

text \<open>
  The copies that hand their threshold to the support counter: on a non-empty
  transaction list, every itemset of the \<open>k\<close>-th level they return has exactly \<open>k\<close> items,
  and the quotient of its stored count by the number of transactions, as the code forms
  it, is at least the threshold.
\<close>

lemma lcofi_levels_sized_and_frequent:
  assumes "T \<noteq> []"
  shows "\<exists>levels. lcofi T ms = Inr levels \<and>
     (\<forall>k F c. 1 \<le> k \<and> k \<le> length levels \<and> fmlookup (levels ! (k - 1)) F = Some c
        \<longrightarrow> fcard F = k \<and> ms \<le> double_quotient c (length T))"
proof -
  obtain levels where ret: "lcofi T ms = Inr levels"
    using lcofi_returns by blast
  then obtain F1 where
    first: "count_support (single_items (build_graph T)) T ms = Inr F1"
    and loop: "lcofi_loop T ms F1 2 [F1] = Inr levels"
    by (rule lcofi_first_level)
  define I where "I = (\<lambda>(F :: support_dict) (k :: nat) (acc :: support_dict list).
      (\<forall>i < length acc. \<forall>S c. fmlookup (acc ! i) S = Some c
          \<longrightarrow> fcard S = i + 1 \<and> ms \<le> double_quotient c (length T))
      \<and> (F \<noteq> fmempty \<longrightarrow> length acc + 1 = k))"
  have init: "I F1 2 [F1]"
    unfolding I_def
    using count_support_Inr_frequent [OF first] single_items_card by auto
  have step: "I F' (k + 1) (if F' \<noteq> fmempty then acc @ [F'] else acc)"
    if inv: "I F k acc" and ne: "F \<noteq> fmempty"
      and cs: "count_support (generate_candidates F k) T ms = Inr F'"
    for F k acc F'
  proof (cases "F' = fmempty")
    case True
    with inv show ?thesis by (simp add: I_def)
  next
    case False
    from inv ne have len: "length acc + 1 = k" by (simp add: I_def)
    have new: "fcard S = k \<and> ms \<le> double_quotient c (length T)"
      if "fmlookup F' S = Some c" for S c
      using count_support_Inr_frequent [OF cs that]
        level_keys_candidates [OF cs fmdomI [OF that]] by blast
    have "fcard S = i + 1 \<and> ms \<le> double_quotient c (length T)"
      if "i < length (acc @ [F'])" and "fmlookup ((acc @ [F']) ! i) S = Some c" for i S c
    proof (cases "i < length acc")
      case True
      with that(2) inv show ?thesis by (simp add: I_def nth_append)
    next
      case False
      with that(1) have "i = length acc" by simp
      with that(2) new len show ?thesis by (simp add: nth_append)
    qed
    with False len show ?thesis by (simp add: I_def)
  qed
  have "\<exists>k'. I fmempty k' levels"
    using loop init by (rule lcofi_loop_rule [where I = I]) (rule step)
  then obtain k' where fin: "I fmempty k' levels" by blast
  have "fcard F = k \<and> ms \<le> double_quotient c (length T)"
    if "1 \<le> k" and "k \<le> length levels" and "fmlookup (levels ! (k - 1)) F = Some c"
    for k F c
  proof -
    from that(1,2) have "k - 1 < length levels" and "k - 1 + 1 = k" by simp_all
    with fin that(3) show ?thesis unfolding I_def by metis
  qed
  with ret show ?thesis by blast
qed

lemma lcofi_levels_chain:
  "\<exists>levels. lcofi T ms = Inr levels \<and>
     (\<forall>k F x. 2 \<le> k \<and> k \<le> length levels \<and> F |\<in>| fmdom (levels ! (k - 1)) \<and> x |\<in>| F
        \<longrightarrow> (\<exists>F'. F' |\<in>| fmdom (levels ! (k - 2)) \<and> x |\<in>| F'))"
proof -
  obtain levels where ret: "lcofi T ms = Inr levels"
    using lcofi_returns by blast
  then obtain F1 where
    first: "count_support (single_items (build_graph T)) T ms = Inr F1"
    and loop: "lcofi_loop T ms F1 2 [F1] = Inr levels"
    by (rule lcofi_first_level)
  define J where "J = (\<lambda>(F :: support_dict) (k :: nat) acc.
      (\<forall>i. Suc i < length acc \<longrightarrow> (\<forall>S x. S |\<in>| fmdom (acc ! Suc i) \<and> x |\<in>| S
          \<longrightarrow> (\<exists>S'. S' |\<in>| fmdom (acc ! i) \<and> x |\<in>| S')))
      \<and> (F \<noteq> fmempty \<longrightarrow> acc \<noteq> [] \<and> last acc = F))"
  have init: "J F1 2 [F1]"
    unfolding J_def by simp
  have step: "J F' (k + 1) (if F' \<noteq> fmempty then acc @ [F'] else acc)"
    if inv: "J F k acc" and ne: "F \<noteq> fmempty"
      and cs: "count_support (generate_candidates F k) T ms = Inr F'"
    for F k acc F'
  proof (cases "F' = fmempty")
    case True
    with inv show ?thesis by (simp add: J_def)
  next
    case False
    from inv ne have last: "acc \<noteq> []" "last acc = F" by (simp_all add: J_def)
    have new: "\<exists>S'. S' |\<in>| fmdom F \<and> x |\<in>| S'" if "S |\<in>| fmdom F'" and "x |\<in>| S" for S x
    proof -
      from level_keys_candidates [OF cs that(1)] that(2)
      have "x |\<in>| ffUnion (fmdom F)" by auto
      then show ?thesis by (auto simp: ffUnion.rep_eq)
    qed
    have "\<forall>i. Suc i < length (acc @ [F']) \<longrightarrow>
        (\<forall>S x. S |\<in>| fmdom ((acc @ [F']) ! Suc i) \<and> x |\<in>| S
          \<longrightarrow> (\<exists>S'. S' |\<in>| fmdom ((acc @ [F']) ! i) \<and> x |\<in>| S'))"
    proof (intro allI impI, elim conjE)
      fix i S x
      assume that: "Suc i < length (acc @ [F'])" "S |\<in>| fmdom ((acc @ [F']) ! Suc i)" "x |\<in>| S"
      show "\<exists>S'. S' |\<in>| fmdom ((acc @ [F']) ! i) \<and> x |\<in>| S'"
      proof (cases "Suc i < length acc")
        case True
        with that(2,3) inv show ?thesis unfolding J_def by (simp add: nth_append)
      next
        case False
        with that(1) have i: "Suc i = length acc" by simp
        then have "acc ! i = F" using last by (metis diff_Suc_1 last_conv_nth)
        with i that(2,3) new show ?thesis by (simp add: nth_append)
      qed
    qed
    with False show ?thesis unfolding J_def by simp
  qed
  have "\<exists>k'. J fmempty k' levels"
    using loop init by (rule lcofi_loop_rule [where I = J]) (rule step)
  then obtain k' where fin: "J fmempty k' levels" by blast
  have "\<exists>F'. F' |\<in>| fmdom (levels ! (k - 2)) \<and> x |\<in>| F'"
    if "2 \<le> k" and "k \<le> length levels" and "F |\<in>| fmdom (levels ! (k - 1))" and "x |\<in>| F"
    for k F x
  proof -
    from that(1) have k: "k - 1 = Suc (k - 2)" by simp
    with that(1,2) have "Suc (k - 2) < length levels" by simp
    with fin that(3,4) k show ?thesis unfolding J_def by metis
  qed
  with ret show ?thesis by blast
qed

text \<open>
  Claim C8. For every run of \<open>lcofi\<close> and every \<open>k \<ge> 2\<close>, every item of a frequent
  itemset of level \<open>k\<close> is an item of some frequent itemset of level \<open>k - 1\<close>. It is
  stated of the copies that pass their threshold on and of the copy of the example
  notebook.
\<close>

theorem lcofi_items_come_from_previous_level:
  "(\<exists>levels. lcofi T ms = Inr levels \<and>
     (\<forall>k F x. 2 \<le> k \<and> k \<le> length levels \<and> F |\<in>| fmdom (levels ! (k - 1)) \<and> x |\<in>| F
        \<longrightarrow> (\<exists>F'. F' |\<in>| fmdom (levels ! (k - 2)) \<and> x |\<in>| F')))
   \<and> (\<exists>levels. example_lcofi g T ms = Inr levels \<and>
     (\<forall>k F x. 2 \<le> k \<and> k \<le> length levels \<and> F |\<in>| fmdom (levels ! (k - 1)) \<and> x |\<in>| F
        \<longrightarrow> (\<exists>F'. F' |\<in>| fmdom (levels ! (k - 2)) \<and> x |\<in>| F')))"
proof
  show "\<exists>levels. lcofi T ms = Inr levels \<and>
     (\<forall>k F x. 2 \<le> k \<and> k \<le> length levels \<and> F |\<in>| fmdom (levels ! (k - 1)) \<and> x |\<in>| F
        \<longrightarrow> (\<exists>F'. F' |\<in>| fmdom (levels ! (k - 2)) \<and> x |\<in>| F'))"
    by (rule lcofi_levels_chain)
  show "\<exists>levels. example_lcofi g T ms = Inr levels \<and>
     (\<forall>k F x. 2 \<le> k \<and> k \<le> length levels \<and> F |\<in>| fmdom (levels ! (k - 1)) \<and> x |\<in>| F
        \<longrightarrow> (\<exists>F'. F' |\<in>| fmdom (levels ! (k - 2)) \<and> x |\<in>| F'))"
    unfolding example_lcofi_eq by (rule lcofi_levels_chain)
qed

lemma lcofi_example_value:
  "lcofi example_transactions float_0_6 = Inr [example_level1, example_level2]"
  by code_simp

lemma example_level2_lookup: "fmlookup example_level2 {|''C'', ''A''|} = Some 3"
  by code_simp

lemma example_level2_key: "{|''C'', ''A''|} |\<in>| fmdom example_level2"
  by (rule fmdomI) (rule example_level2_lookup)

text \<open>
  An instance: the example dataset at threshold 0.6, and the itemset \<open>{C, A}\<close> of its
  second level.
\<close>

lemma lcofi_levels_sized_and_frequent_instance:
  "example_transactions \<noteq> []
   \<and> lcofi example_transactions float_0_6 = Inr [example_level1, example_level2]
   \<and> (1::nat) \<le> 2 \<and> 2 \<le> length [example_level1, example_level2]
   \<and> fmlookup ([example_level1, example_level2] ! (2 - 1)) {|''C'', ''A''|} = Some 3
   \<and> fcard {|''C'', ''A''|} = 2
   \<and> float_0_6 \<le> double_quotient 3 (length example_transactions)"
proof -
  have ne: "example_transactions \<noteq> []" by (simp add: example_transactions_def)
  from lcofi_levels_sized_and_frequent [OF ne, of float_0_6] obtain levels where
    ret: "lcofi example_transactions float_0_6 = Inr levels"
    and sized: "\<forall>k F c. 1 \<le> k \<and> k \<le> length levels \<and> fmlookup (levels ! (k - 1)) F = Some c
        \<longrightarrow> fcard F = k \<and> float_0_6 \<le> double_quotient c (length example_transactions)"
    by blast
  from ret lcofi_example_value have lv: "levels = [example_level1, example_level2]"
    by simp
  have look: "fmlookup ([example_level1, example_level2] ! (2 - 1)) {|''C'', ''A''|} = Some 3"
    by (simp add: example_level2_lookup)
  from sized [rule_format, of 2 "{|''C'', ''A''|}" 3] lv look
  have "fcard {|''C'', ''A''|} = 2
      \<and> float_0_6 \<le> double_quotient 3 (length example_transactions)"
    by simp
  with ne look lcofi_example_value show ?thesis by simp
qed

text \<open>
  Witness for C8: the item \<open>A\<close> of the itemset \<open>{C, A}\<close> in the second level of the
  example.
\<close>

theorem lcofi_items_come_from_previous_level_witness:
  "lcofi example_transactions float_0_6 = Inr [example_level1, example_level2]
   \<and> (2::nat) \<le> 2 \<and> 2 \<le> length [example_level1, example_level2]
   \<and> {|''C'', ''A''|} |\<in>| fmdom ([example_level1, example_level2] ! (2 - 1))
   \<and> ''A'' |\<in>| {|''C'', ''A''|}
   \<and> (\<exists>F'. F' |\<in>| fmdom ([example_level1, example_level2] ! (2 - 2)) \<and> ''A'' |\<in>| F')"
proof -
  from lcofi_items_come_from_previous_level [of example_transactions float_0_6 float_0_6]
  obtain levels where
    ret: "lcofi example_transactions float_0_6 = Inr levels"
    and prev: "\<forall>k F x. 2 \<le> k \<and> k \<le> length levels \<and> F |\<in>| fmdom (levels ! (k - 1)) \<and> x |\<in>| F
        \<longrightarrow> (\<exists>F'. F' |\<in>| fmdom (levels ! (k - 2)) \<and> x |\<in>| F')"
    by blast
  from ret lcofi_example_value have lv: "levels = [example_level1, example_level2]"
    by simp
  have key: "{|''C'', ''A''|} |\<in>| fmdom ([example_level1, example_level2] ! (2 - 1))"
    by (simp add: example_level2_key)
  from prev [rule_format, of 2 "{|''C'', ''A''|}" "''A''"] lv key
  have "\<exists>F'. F' |\<in>| fmdom ([example_level1, example_level2] ! (2 - 2)) \<and> ''A'' |\<in>| F'"
    by simp
  with key lcofi_example_value show ?thesis by simp
qed

text \<open>
  Claim C3 says that for every non-empty transaction list and every \<open>min_support\<close>, every
  itemset of the \<open>k\<close>-th level that \<open>lcofi\<close> returns has exactly \<open>k\<close> items and a stored
  count whose quotient by the number of transactions is at least \<open>min_support\<close>. The
  \<open>lcofi\<close> of the example notebook does not read its \<open>min_support\<close>: its support counter
  takes the threshold from the global, which the notebook sets to 0.6. Called on the
  sample dataset with \<open>min_support = 0.9\<close> it returns the levels of 0.6; the itemset \<open>{A}\<close>
  of its first level has count 3 of 5 transactions, and that quotient is below 0.9. The
  copies of the other notebooks pass the threshold on (\<open>lcofi_levels_sized_and_frequent\<close>
  above) and return the single itemset \<open>{C}\<close> at 0.9.
\<close>

theorem example_lcofi_ignores_min_support:
  "example_lcofi float_0_6 example_transactions float_0_9 =
     Inr [fmap_of_list [({|''C''|}, 5), ({|''A''|}, 3), ({|''B''|}, 3)],
          fmap_of_list [({|''C'', ''A''|}, 3), ({|''C'', ''B''|}, 3)]]
   \<and> fmlookup (fmap_of_list [({|''C''|}, 5), ({|''A''|}, 3), ({|''B''|}, 3)]) {|''A''|}
       = Some (3::nat)
   \<and> double_quotient 3 (length example_transactions) < float_0_9
   \<and> lcofi example_transactions float_0_9 = Inr [fmap_of_list [({|''C''|}, 5)]]"
  by code_simp

text \<open>
  Claim C7. On the transactions \<open>[{A,B,C}, {A,C}, {B,C,D}, {A,C,D}, {B,C}]\<close> with
  \<open>min_support = 0.6\<close>, \<open>lcofi\<close> returns exactly two levels: level 1 maps \<open>{C}\<close> to 5,
  \<open>{A}\<close> to 3 and \<open>{B}\<close> to 3; level 2 maps \<open>{C,A}\<close> to 3 and \<open>{C,B}\<close> to 3; the
  third level comes back empty, so mining stops after level 2. The copy of the example
  notebook, whose global is that threshold, returns the same.
\<close>

theorem lcofi_example_two_levels:
  "lcofi example_transactions float_0_6 =
     Inr [fmap_of_list [({|''C''|}, 5), ({|''A''|}, 3), ({|''B''|}, 3)],
          fmap_of_list [({|''C'', ''A''|}, 3), ({|''C'', ''B''|}, 3)]]
   \<and> count_support
       (generate_candidates (fmap_of_list [({|''C'', ''A''|}, 3), ({|''C'', ''B''|}, 3)]) 3)
       example_transactions float_0_6 = Inr fmempty
   \<and> example_lcofi float_0_6 example_transactions float_0_6 =
     Inr [fmap_of_list [({|''C''|}, 5), ({|''A''|}, 3), ({|''B''|}, 3)],
          fmap_of_list [({|''C'', ''A''|}, 3), ({|''C'', ''B''|}, 3)]]"
  by code_simp

text \<open>
  Claim C4 says that \<open>lcofi\<close> returns an empty list of levels when no single item meets
  \<open>min_support\<close>. On the transactions \<open>[{A}, {B}]\<close> with threshold 0.6 the first level is
  empty, and the list returned holds that empty level: the first level is put in the
  list without the emptiness test the loop makes before it appends. Every copy does so.
\<close>

theorem lcofi_empty_first_level_kept:
  "count_support (single_items (build_graph [{|''A''|}, {|''B''|}])) [{|''A''|}, {|''B''|}] float_0_6
     = Inr fmempty
   \<and> lcofi [{|''A''|}, {|''B''|}] float_0_6 = Inr [fmempty]
   \<and> lcofi [{|''A''|}, {|''B''|}] float_0_6 \<noteq> Inr []
   \<and> example_lcofi float_0_6 [{|''A''|}, {|''B''|}] float_0_6 = Inr [fmempty]"
  by code_simp

text \<open>
  Claim C6 says that mining detects and reports an empty transaction list instead of
  failing with a division by zero. Neither happens: with no transactions \<open>lcofi\<close>
  returns normally, and the support counter alone, given a candidate and no
  transactions, fails with the division by zero.
\<close>

theorem lcofi_no_transactions_counterexample:
  "lcofi [] float_0_6 = Inr [fmempty]
   \<and> count_support {|{|''A''|}|} [] float_0_6 = Inl ZeroDivisionError
   \<and> example_lcofi float_0_6 [] float_0_6 = Inr [fmempty]"
  by code_simp

text \<open>
  Claim C6 as amended: when the transaction list is empty, \<open>lcofi\<close> neither detects nor
  reports the condition, and it does not fail with a division by zero either: whatever
  the threshold, it returns normally. This holds of every copy.
\<close>

theorem lcofi_no_transactions_no_error:
  "(\<exists>levels. lcofi [] min_support = Inr levels)
   \<and> (\<exists>levels. example_lcofi global_min_support [] min_support = Inr levels)"
  by (simp add: example_lcofi_eq lcofi_returns)

section \<open>The seed items read off the incidence graph\<close>

lemma fmdom_add_edge: "fmdom (add_edge G u v) = finsert u (finsert v (fmdom G))"
  by (auto simp: add_edge_def Let_def)

lemma no_isolated_add_edge: "no_isolated G \<Longrightarrow> no_isolated (add_edge G u v)"
  unfolding no_isolated_def fmdom_add_edge
  by (auto simp: add_edge_def Let_def neighbours_def)

lemma transaction_node_prefix: "startswith (transaction_node i) ''Transaction''"
  by (simp add: startswith_def transaction_node_def)

lemma inner_fold_items:
  assumes "\<not> startswith x ''Transaction''"
  shows "x |\<in>| fmdom (fold (\<lambda>item G. add_edge G (transaction_node i) item) xs G)
     \<longleftrightarrow> x \<in> set xs \<or> x |\<in>| fmdom G"
proof (induction xs arbitrary: G)
  case Nil
  then show ?case by simp
next
  case (Cons y ys)
  from assms transaction_node_prefix [of i] have "x \<noteq> transaction_node i" by auto
  then show ?case by (auto simp: Cons.IH fmdom_add_edge)
qed

lemma inner_fold_no_isolated:
  "no_isolated G \<Longrightarrow> no_isolated (fold (\<lambda>item G. add_edge G u item) xs G)"
  by (induction xs arbitrary: G) (simp_all add: no_isolated_add_edge)

lemma outer_fold_items:
  assumes "\<not> startswith x ''Transaction''"
  shows "x |\<in>| fmdom (fold (\<lambda>(i, transaction) G.
             fold (\<lambda>item G. add_edge G (transaction_node i) item)
               (sorted_list_of_fset transaction) G) (enumerate n T) G)
     \<longleftrightarrow> (\<exists>t \<in> set T. x |\<in>| t) \<or> x |\<in>| fmdom G"
proof (induction T arbitrary: n G)
  case Nil
  then show ?case by simp
next
  case (Cons t T)
  show ?case by (auto simp: Cons.IH inner_fold_items [OF assms])
qed

lemma outer_fold_no_isolated:
  "no_isolated G \<Longrightarrow>
   no_isolated (fold (\<lambda>(i, transaction) G.
             fold (\<lambda>item G. add_edge G (transaction_node i) item)
               (sorted_list_of_fset transaction) G) (enumerate n T) G)"
  by (induction T arbitrary: n G) (simp_all add: inner_fold_no_isolated)

lemma degree_pos: "neighbours G n \<noteq> {||} \<Longrightarrow> 0 < degree G n"
  by (cases "neighbours G n = {||}") (auto simp: degree_def fcard_fempty intro: Suc_lessI gr0I)

lemma single_items_build_graph:
  "single_items (build_graph T) =
     (\<lambda>x. {|x|}) |`| ffilter (\<lambda>x. \<not> startswith x ''Transaction'') (ffUnion (fset_of_list T))"
proof -
  have iso: "no_isolated (build_graph T)"
    unfolding build_graph_def by (rule outer_fold_no_isolated) (simp add: no_isolated_def)
  have "ffilter (\<lambda>node. degree (build_graph T) node > 0 \<and> \<not> startswith node ''Transaction'')
          (fmdom (build_graph T))
      = ffilter (\<lambda>n. \<not> startswith n ''Transaction'') (fmdom (build_graph T))"
    using iso by (auto simp: no_isolated_def degree_pos)
  also have "\<dots> = ffilter (\<lambda>x. \<not> startswith x ''Transaction'') (ffUnion (fset_of_list T))"
    unfolding build_graph_def
    by (rule fset_eqI) (auto simp: outer_fold_items ffUnion.rep_eq fset_of_list.rep_eq)
  finally show ?thesis by (simp add: single_items_def)
qed

lemma seed_universe:
  "ffUnion (single_items (build_graph T)) =
     ffilter (\<lambda>x. \<not> startswith x ''Transaction'') (ffUnion (fset_of_list T))"
  unfolding single_items_build_graph by (auto simp: ffUnion.rep_eq)

text \<open>
  Claim C5 says that the seed universe read off the incidence graph is the set of the
  distinct items of the transactions. The test that separates item nodes from
  transaction nodes is the prefix \<open>Transaction\<close>; an item carrying that prefix is dropped
  with the transaction nodes (\<open>seed_universe\<close> above gives the seed universe of every
  transaction list).
\<close>

theorem seed_items_drop_prefixed_items:
  "ffUnion (single_items (build_graph [{|''Transaction_fee''|}])) = {||}
   \<and> ffUnion (fset_of_list [{|''Transaction_fee''|}]) = {|''Transaction_fee''|}"
  by code_simp

section \<open>Claims on rule derivation\<close>



lemma score_fields [simp]:
  "antecedents (score df F A) = A"
  "consequents (score df F A) = F |-| A"
  "confidence (score df F A) = supp df F / supp df A"
  by (simp_all add: score_def)




end
